theory Spec2Isabelle
  imports Main
begin

section \<open>The wmii layout engine (libqtile/layout/wmii.py)\<close>

text \<open>
  The layout keeps a list of columns, each a Python dict with the keys
  \<^verbatim>\<open>active\<close>, \<^verbatim>\<open>width\<close>, \<^verbatim>\<open>mode\<close> and \<^verbatim>\<open>rows\<close>, a flat list of clients and the
  focused window. Every method mutates this state in place; the model passes the state
  explicitly and returns it together with the outcome of the call, so that the state a
  raised exception leaves behind is visible: the first component is \<open>Inl e\<close> when the
  Python raises \<open>e\<close> and \<open>Inr v\<close> when it returns \<open>v\<close>, the second is the state at that
  moment.

  Clients are window objects compared by identity; they are the elements of a type
  \<open>'a\<close> compared by equality. Columns are dicts, which \<^verbatim>\<open>list.index\<close> and
  \<^verbatim>\<open>list.remove\<close> compare by content; equality of records is that comparison. No dict
  and no row list is ever shared between two entries of the column list (each is built
  fresh in \<^verbatim>\<open>__init__\<close>, \<^verbatim>\<open>clone\<close> or \<^verbatim>\<open>add_column\<close> and inserted once), so a column
  held by reference in the source is a position in the list here.

  The writes to the diagnostic file \<^verbatim>\<open>/tmp/out\<close> are left out, and so are \<^verbatim>\<open>info\<close>
  and \<^verbatim>\<open>configure\<close>, which read the layout state without changing it, and the four
  \<^verbatim>\<open>focus_*\<close> helpers that no command calls.
\<close>

subsection \<open>Data\<close>

datatype error = IndexError | ValueError | TypeError | ZeroDivisionError

text \<open>
  The key \<^verbatim>\<open>active\<close> is absent from a column built by \<^verbatim>\<open>add_column\<close> until
  \<^verbatim>\<open>focus\<close> stores it: \<open>None\<close> is the absent key. The mode is the string the source
  stores, \<^verbatim>\<open>'split'\<close> or \<^verbatim>\<open>'stack'\<close>.
\<close>

record 'a column =
  active :: "nat option"
  width :: int
  mode :: string
  rows :: "'a list"

record 'a wmii =
  current_window :: "'a option"
  clients :: "'a list"
  columns :: "'a column list"

type_synonym ('r, 'a) outcome = "(error + 'r) \<times> 'a wmii"

subsection \<open>Python list primitives\<close>

text \<open>\<^verbatim>\<open>xs.index(x)\<close>: the position of the first element equal to \<open>x\<close>, ValueError if none.\<close>

fun index_of :: "'b list \<Rightarrow> 'b \<Rightarrow> nat option" where
  "index_of [] x = None"
| "index_of (y # ys) x = (if y = x then Some 0 else map_option Suc (index_of ys x))"

definition list_index :: "'b list \<Rightarrow> 'b \<Rightarrow> error + nat" where
  "list_index xs x = (case index_of xs x of None \<Rightarrow> Inl ValueError | Some i \<Rightarrow> Inr i)"

text \<open>\<^verbatim>\<open>xs.remove(x)\<close>: drops the first element equal to \<open>x\<close>, ValueError if none.\<close>

definition list_remove :: "'b list \<Rightarrow> 'b \<Rightarrow> error + 'b list" where
  "list_remove xs x = (if x \<in> set xs then Inr (remove1 x xs) else Inl ValueError)"

text \<open>\<^verbatim>\<open>xs[i]\<close>: a negative index counts from the end, IndexError out of range.\<close>

definition getitem :: "'b list \<Rightarrow> int \<Rightarrow> error + 'b" where
  "getitem xs i =
     (if 0 \<le> i \<and> i < int (length xs) then Inr (xs ! nat i)
      else if i < 0 \<and> - int (length xs) \<le> i then Inr (xs ! nat (int (length xs) + i))
      else Inl IndexError)"

text \<open>
  \<^verbatim>\<open>(int) (100 / n)\<close> under \<^verbatim>\<open>from __future__ import division\<close>: the float quotient,
  truncated. For a positive \<open>n\<close> the quotient is at least \<open>1 / n\<close> away from the next
  integer unless it is one, so the truncation is the integer quotient; for \<open>n = 0\<close> the
  division raises.
\<close>

definition newwidth_of :: "nat \<Rightarrow> error + int" where
  "newwidth_of n = (if n = 0 then Inl ZeroDivisionError else Inr (100 div int n))"

text \<open>
  \<^verbatim>\<open>swap(array, a, b)\<close>: reads \<^verbatim>\<open>array[b]\<close>, then \<^verbatim>\<open>array[a]\<close>, then stores both.
  Both callers pass indices that are not negative.
\<close>

definition swap :: "'b list \<Rightarrow> nat \<Rightarrow> nat \<Rightarrow> error + 'b list" where
  "swap array a b =
     (case getitem array (int b) of
        Inl e \<Rightarrow> Inl e
      | Inr tmp \<Rightarrow>
         (case getitem array (int a) of
            Inl e \<Rightarrow> Inl e
          | Inr va \<Rightarrow> Inr ((array[b := va])[a := tmp])))"

subsection \<open>Construction, lookup and focus\<close>

text \<open>\<^verbatim>\<open>__init__\<close> and \<^verbatim>\<open>clone\<close>: one column with no rows, width 100, mode split.\<close>

definition wmii_init :: "'a wmii" where
  "wmii_init =
     \<lparr>current_window = None, clients = [],
      columns = [\<lparr>active = Some 0, width = 100, mode = ''split'', rows = []\<rparr>]\<rparr>"

text \<open>The loop \<^verbatim>\<open>for c in self.columns: if w in c['rows']\<close>: the first column holding \<open>w\<close>.\<close>

fun find_column :: "'a column list \<Rightarrow> 'a \<Rightarrow> nat option" where
  "find_column [] w = None"
| "find_column (c # cs) w =
     (if w \<in> set (rows c) then Some 0 else map_option Suc (find_column cs w))"

definition current_column :: "'a wmii \<Rightarrow> nat option" where
  "current_column s =
     (case current_window s of None \<Rightarrow> None | Some w \<Rightarrow> find_column (columns s) w)"

definition focus :: "'a \<Rightarrow> 'a wmii \<Rightarrow> 'a wmii" where
  "focus client s =
     s\<lparr>current_window := Some client,
       columns := map (\<lambda>c. if client \<in> set (rows c)
                            then c\<lparr>active := index_of (rows c) client\<rparr> else c) (columns s)\<rparr>"

text \<open>
  Modelled from the spec: the host's focus delegate \<^verbatim>\<open>self.group.focus(client)\<close>, whose
  class is not among the source files. The spec (sections 4.2 and 6) has the delegate
  called whenever navigation or a shuffle changes the active client and says that the
  engine's own \<^verbatim>\<open>focus()\<close> state update must also run; on the layout state the delegate
  is therefore the engine's \<open>focus\<close>.
\<close>

definition group_focus :: "'a \<Rightarrow> 'a wmii \<Rightarrow> 'a wmii" where
  "group_focus client s = focus client s"

subsection \<open>add\_column, add, remove\<close>

definition set_widths :: "int \<Rightarrow> 'a column list \<Rightarrow> 'a column list" where
  "set_widths newwidth cs = map (\<lambda>c. c\<lparr>width := newwidth\<rparr>) cs"

definition add_column :: "bool \<Rightarrow> 'a \<Rightarrow> 'a wmii \<Rightarrow> 'a wmii" where
  "add_column prepend win s =
     (let newwidth = 100 div (int (length (columns s)) + 1);
          cs = set_widths newwidth (columns s);
          c = \<lparr>active = None, width = newwidth, mode = ''split'', rows = [win]\<rparr>
      in s\<lparr>columns := (if prepend then c # cs else cs @ [c])\<rparr>)"

definition append_row :: "nat \<Rightarrow> 'a \<Rightarrow> 'a column list \<Rightarrow> 'a column list" where
  "append_row i client cs = cs[i := (cs ! i)\<lparr>rows := rows (cs ! i) @ [client]\<rparr>]"

definition add :: "'a \<Rightarrow> 'a wmii \<Rightarrow> (unit, 'a) outcome" where
  "add client s =
     (let s1 = s\<lparr>clients := clients s @ [client]\<rparr> in
      case current_column s1 of
        Some i \<Rightarrow> (Inr (), focus client (s1\<lparr>columns := append_row i client (columns s1)\<rparr>))
      | None \<Rightarrow>
         (case columns s1 of
            [] \<Rightarrow> (Inl IndexError, s1)
          | _ # _ \<Rightarrow> (Inr (), focus client (s1\<lparr>columns := append_row 0 client (columns s1)\<rparr>))))"

text \<open>
  The body of the loop of \<^verbatim>\<open>remove\<close> at the first column \<open>i\<close> that holds the client
  (lines 122 to 146); every path through it returns or raises. It is split at the test
  \<^verbatim>\<open>len(c['rows']) != 0\<close>: \<open>remove_refocus\<close> is lines 126 to 130, \<open>remove_column\<close>
  lines 132 to 146, where \<open>c'\<close> is the column after the client has left its rows.
\<close>

definition remove_refocus :: "nat \<Rightarrow> 'a column \<Rightarrow> 'a wmii \<Rightarrow> ('a option, 'a) outcome" where
  "remove_refocus ridx c' s1 =
     (let ridx' = (if ridx > 0 then ridx - 1 else ridx) in
      case getitem (rows c') (int ridx') of
        Inl e \<Rightarrow> (Inl e, s1)
      | Inr newclient \<Rightarrow> (Inr (Some newclient), focus newclient s1))"

definition select_column :: "nat \<Rightarrow> 'a wmii \<Rightarrow> ('a option, 'a) outcome" where
  "select_column cidx s3 =
     (let cidx' = (if cidx > 0 then cidx - 1 else cidx) in
      case getitem (columns s3) (int cidx') of
        Inl e \<Rightarrow> (Inl e, s3)
      | Inr c2 \<Rightarrow>
         (case getitem (rows c2) 0 of
            Inl e \<Rightarrow> (Inl e, s3)
          | Inr newclient \<Rightarrow>
             (Inr (Some newclient),
              group_focus newclient (s3\<lparr>current_window := Some newclient\<rparr>))))"

definition remove_column :: "nat \<Rightarrow> 'a column \<Rightarrow> 'a wmii \<Rightarrow> ('a option, 'a) outcome" where
  "remove_column cidx c' s1 =
     (case list_remove (columns s1) c' of
        Inl e \<Rightarrow> (Inl e, s1)
      | Inr cols \<Rightarrow>
         (let s2 = s1\<lparr>columns := cols\<rparr> in
          case newwidth_of (length (columns s2)) of
            Inl e \<Rightarrow> (Inl e, s2)
          | Inr newwidth \<Rightarrow>
             (let s3 = s2\<lparr>columns := set_widths newwidth (columns s2)\<rparr> in
              if length (columns s3) = 1 then (Inr None, s3)
              else select_column cidx s3)))"

definition remove_found :: "nat \<Rightarrow> 'a \<Rightarrow> 'a wmii \<Rightarrow> ('a option, 'a) outcome" where
  "remove_found i client s =
     (let c = columns s ! i in
      case list_index (rows c) client of
        Inl e \<Rightarrow> (Inl e, s)
      | Inr ridx \<Rightarrow>
         (case list_index (columns s) c of
            Inl e \<Rightarrow> (Inl e, s)
          | Inr cidx \<Rightarrow>
             (let c' = c\<lparr>rows := remove1 client (rows c)\<rparr>;
                  s1 = s\<lparr>columns := (columns s)[i := c']\<rparr> in
              if length (rows c') \<noteq> 0 then remove_refocus ridx c' s1
              else remove_column cidx c' s1)))"

definition remove :: "'a \<Rightarrow> 'a wmii \<Rightarrow> ('a option, 'a) outcome" where
  "remove client s =
     (if client \<notin> set (clients s) then (Inr None, s)
      else
        (let s1 = s\<lparr>clients := remove1 client (clients s)\<rparr> in
         if current_window s1 \<noteq> Some client then (Inr None, s1)
         else
           (let s2 = s1\<lparr>current_window := None\<rparr> in
            case find_column (columns s2) client of
              None \<Rightarrow> (Inr None, s2)
            | Some i \<Rightarrow> remove_found i client s2)))"

subsection \<open>Navigation\<close>

text \<open>
  \<^verbatim>\<open>c['rows'].index(self.current_window)\<close>: no row is \<^verbatim>\<open>None\<close>, so the search for an
  unset focus raises ValueError.
\<close>

definition index_current :: "'a list \<Rightarrow> 'a option \<Rightarrow> error + nat" where
  "index_current r cw = (case cw of None \<Rightarrow> Inl ValueError | Some w \<Rightarrow> list_index r w)"

text \<open>Subscripting the \<^verbatim>\<open>None\<close> that \<^verbatim>\<open>current_column\<close> returned raises TypeError.\<close>

definition cmd_toggle_split :: "'a wmii \<Rightarrow> (unit, 'a) outcome" where
  "cmd_toggle_split s =
     (case current_column s of
        None \<Rightarrow> (Inl TypeError, s)
      | Some i \<Rightarrow>
         (let c = columns s ! i in
          (Inr (), s\<lparr>columns := (columns s)[i := c\<lparr>mode :=
                      (if mode c = ''split'' then ''stack'' else ''split'')\<rparr>]\<rparr>)))"

text \<open>\<^verbatim>\<open>self.group.focus(self.columns[cidx]['rows'][0])\<close>.\<close>

definition focus_first_row :: "int \<Rightarrow> 'a wmii \<Rightarrow> (unit, 'a) outcome" where
  "focus_first_row cidx s =
     (case getitem (columns s) cidx of
        Inl e \<Rightarrow> (Inl e, s)
      | Inr c2 \<Rightarrow>
         (case getitem (rows c2) 0 of
            Inl e \<Rightarrow> (Inl e, s)
          | Inr w \<Rightarrow> (Inr (), group_focus w s)))"

text \<open>\<^verbatim>\<open>self.columns.index(None)\<close> raises ValueError: no column equals \<^verbatim>\<open>None\<close>.\<close>

definition cmd_left :: "'a wmii \<Rightarrow> (unit, 'a) outcome" where
  "cmd_left s =
     (case current_column s of
        None \<Rightarrow> (Inl ValueError, s)
      | Some i \<Rightarrow>
         (case list_index (columns s) (columns s ! i) of
            Inl e \<Rightarrow> (Inl e, s)
          | Inr cidx \<Rightarrow>
             if cidx = 0 then (Inr (), s) else focus_first_row (int cidx - 1) s))"

definition cmd_right :: "'a wmii \<Rightarrow> (unit, 'a) outcome" where
  "cmd_right s =
     (case current_column s of
        None \<Rightarrow> (Inl ValueError, s)
      | Some i \<Rightarrow>
         (case list_index (columns s) (columns s ! i) of
            Inl e \<Rightarrow> (Inl e, s)
          | Inr cidx \<Rightarrow>
             if int cidx = int (length (columns s)) - 1 then (Inr (), s)
             else focus_first_row (int cidx + 1) s))"

definition cmd_up :: "'a wmii \<Rightarrow> (unit, 'a) outcome" where
  "cmd_up s =
     (case current_column s of
        None \<Rightarrow> (Inr (), s)
      | Some i \<Rightarrow>
         (let c = columns s ! i in
          case index_current (rows c) (current_window s) of
            Inl e \<Rightarrow> (Inl e, s)
          | Inr ridx \<Rightarrow>
             if mode c = ''split'' \<and> ridx = 0 then (Inr (), s)
             else
               (case getitem (rows c) (int ridx - 1) of
                  Inl e \<Rightarrow> (Inl e, s)
                | Inr client \<Rightarrow> (Inr (), group_focus client s))))"

definition cmd_down :: "'a wmii \<Rightarrow> (unit, 'a) outcome" where
  "cmd_down s =
     (case current_column s of
        None \<Rightarrow> (Inr (), s)
      | Some i \<Rightarrow>
         (let c = columns s ! i in
          case index_current (rows c) (current_window s) of
            Inl e \<Rightarrow> (Inl e, s)
          | Inr ridx \<Rightarrow>
             if mode c = ''split'' \<and> int ridx = int (length (rows c)) - 1 then (Inr (), s)
             else
               (case getitem (rows c) (int ridx + 1) of
                  Inl e \<Rightarrow> (Inl e, s)
                | Inr client \<Rightarrow> (Inr (), group_focus client s))))"

subsection \<open>Shuffles\<close>

text \<open>
  The tail shared by \<^verbatim>\<open>cmd_shuffle_left\<close> and \<^verbatim>\<open>cmd_shuffle_right\<close> (lines 316 to 323
  and 343 to 348): a source column \<open>c\<close> left without rows is removed and the widths are
  rebalanced, then the host is told to focus the moved client.
\<close>

definition shuffle_finish :: "'a column \<Rightarrow> 'a \<Rightarrow> 'a wmii \<Rightarrow> (unit, 'a) outcome" where
  "shuffle_finish c cur s =
     (if length (rows c) = 0 then
        (case list_remove (columns s) c of
           Inl e \<Rightarrow> (Inl e, s)
         | Inr cols \<Rightarrow>
            (let s1 = s\<lparr>columns := cols\<rparr> in
             case newwidth_of (length (columns s1)) of
               Inl e \<Rightarrow> (Inl e, s1)
             | Inr newwidth \<Rightarrow>
                (Inr (), group_focus cur (s1\<lparr>columns := set_widths newwidth (columns s1)\<rparr>))))
      else (Inr (), group_focus cur s))"

text \<open>
  The branch at an end of the column list (lines 301 to 308 and 334 to 339): the client
  leaves column \<open>i\<close> and gets a column of its own. \<open>k\<close> is where the source column stands
  after \<^verbatim>\<open>add_column\<close>: one place further when the new column is prepended.
\<close>

definition shuffle_new_column :: "bool \<Rightarrow> nat \<Rightarrow> 'a \<Rightarrow> 'a wmii \<Rightarrow> (unit, 'a) outcome" where
  "shuffle_new_column prepend i cur s =
     (let c = columns s ! i in
      if length (rows c) = 1 then (Inr (), s)
      else
        (let s1 = s\<lparr>columns := (columns s)[i := c\<lparr>rows := remove1 cur (rows c)\<rparr>]\<rparr>;
             s2 = add_column prepend cur s1;
             k = (if prepend then Suc i else i);
             c2 = columns s2 ! k in
         if length (rows c2) = 0 then
           (case list_remove (columns s2) c2 of
              Inl e \<Rightarrow> (Inl e, s2)
            | Inr cols \<Rightarrow> shuffle_finish c2 cur (s2\<lparr>columns := cols\<rparr>))
         else shuffle_finish c2 cur s2))"

text \<open>
  The branch inside the column list (lines 312 to 313 and 341 to 342): the client leaves
  column \<open>i\<close> and is appended to the rows of column \<open>j\<close>.
\<close>

definition shuffle_move :: "nat \<Rightarrow> int \<Rightarrow> 'a \<Rightarrow> 'a wmii \<Rightarrow> (unit, 'a) outcome" where
  "shuffle_move i j cur s =
     (let c = columns s ! i;
          s1 = s\<lparr>columns := (columns s)[i := c\<lparr>rows := remove1 cur (rows c)\<rparr>]\<rparr> in
      case getitem (columns s1) j of
        Inl e \<Rightarrow> (Inl e, s1)
      | Inr d \<Rightarrow>
         (let n = int (length (columns s1));
              p = nat (if j < 0 then n + j else j);
              s2 = s1\<lparr>columns := append_row p cur (columns s1)\<rparr> in
          shuffle_finish (columns s2 ! i) cur s2))"

definition cmd_shuffle_left :: "'a wmii \<Rightarrow> (unit, 'a) outcome" where
  "cmd_shuffle_left s =
     (case current_window s of
        None \<Rightarrow> (Inr (), s)
      | Some cur \<Rightarrow>
         (case find_column (columns s) cur of
            None \<Rightarrow> (Inr (), s)
          | Some i \<Rightarrow>
             (case list_index (columns s) (columns s ! i) of
                Inl e \<Rightarrow> (Inl e, s)
              | Inr cidx \<Rightarrow>
                 if cidx = 0 then shuffle_new_column True i cur s
                 else shuffle_move i (int cidx - 1) cur s)))"

definition cmd_shuffle_right :: "'a wmii \<Rightarrow> (unit, 'a) outcome" where
  "cmd_shuffle_right s =
     (case current_window s of
        None \<Rightarrow> (Inr (), s)
      | Some cur \<Rightarrow>
         (case find_column (columns s) cur of
            None \<Rightarrow> (Inr (), s)
          | Some i \<Rightarrow>
             (case list_index (columns s) (columns s ! i) of
                Inl e \<Rightarrow> (Inl e, s)
              | Inr cidx \<Rightarrow>
                 if int cidx = int (length (columns s)) - 1
                 then shuffle_new_column False i cur s
                 else shuffle_move i (int cidx + 1) cur s)))"

text \<open>
  \<^verbatim>\<open>cmd_shuffle_down\<close> and \<^verbatim>\<open>cmd_shuffle_up\<close> look for \<^verbatim>\<open>self.current_window\<close> in the
  rows without testing it against \<^verbatim>\<open>None\<close>; an unset focus is in no row and the loop
  ends without a match.
\<close>

definition shuffle_swap :: "nat \<Rightarrow> nat \<Rightarrow> nat \<Rightarrow> int \<Rightarrow> 'a wmii \<Rightarrow> (unit, 'a) outcome" where
  "shuffle_swap i a b k s =
     (let c = columns s ! i in
      case swap (rows c) a b of
        Inl e \<Rightarrow> (Inl e, s)
      | Inr r \<Rightarrow>
         (let s1 = s\<lparr>columns := (columns s)[i := c\<lparr>rows := r\<rparr>]\<rparr> in
          case getitem r k of
            Inl e \<Rightarrow> (Inl e, s1)
          | Inr client \<Rightarrow> (Inr (), group_focus client (focus client s1))))"

definition cmd_shuffle_down :: "'a wmii \<Rightarrow> (unit, 'a) outcome" where
  "cmd_shuffle_down s =
     (case current_window s of
        None \<Rightarrow> (Inr (), s)
      | Some w \<Rightarrow>
         (case find_column (columns s) w of
            None \<Rightarrow> (Inr (), s)
          | Some i \<Rightarrow>
             (let r = rows (columns s ! i) in
              case list_index r w of
                Inl e \<Rightarrow> (Inl e, s)
              | Inr ridx \<Rightarrow>
                 if ridx < length r then shuffle_swap i ridx (ridx + 1) (int ridx + 1) s
                 else (Inr (), s))))"

definition cmd_shuffle_up :: "'a wmii \<Rightarrow> (unit, 'a) outcome" where
  "cmd_shuffle_up s =
     (case current_window s of
        None \<Rightarrow> (Inr (), s)
      | Some w \<Rightarrow>
         (case find_column (columns s) w of
            None \<Rightarrow> (Inr (), s)
          | Some i \<Rightarrow>
             (let r = rows (columns s ! i) in
              case list_index r w of
                Inl e \<Rightarrow> (Inl e, s)
              | Inr ridx \<Rightarrow>
                 if ridx > 0 then shuffle_swap i (ridx - 1) ridx (int ridx - 1) s
                 else (Inr (), s))))"

subsection \<open>Reachable states\<close>

text \<open>
  The states the host can bring about: the empty layout of \<^verbatim>\<open>__init__\<close>, and from a
  reachable state the state any of the layout's methods leaves behind, whether it
  returns or raises. \<open>column_invariant\<close> is the property of the column list that all
  of them maintain: no column is without rows, unless the list has at most one column
  (the placeholder of the empty layout, or no column at all).
\<close>

definition nonempty_columns :: "'a column list \<Rightarrow> bool" where
  "nonempty_columns cs \<longleftrightarrow> (\<forall>c\<in>set cs. rows c \<noteq> [])"

definition columns_ok :: "'a column list \<Rightarrow> bool" where
  "columns_ok cs \<longleftrightarrow> nonempty_columns cs \<or> length cs \<le> 1"

definition column_invariant :: "'a wmii \<Rightarrow> bool" where
  "column_invariant s \<longleftrightarrow> columns_ok (columns s)"

inductive reachable :: "'a wmii \<Rightarrow> bool" where
  r_init: "reachable wmii_init"
| r_add: "reachable s \<Longrightarrow> reachable (snd (add client s))"
| r_remove: "reachable s \<Longrightarrow> reachable (snd (remove client s))"
| r_focus: "reachable s \<Longrightarrow> reachable (focus client s)"
| r_toggle_split: "reachable s \<Longrightarrow> reachable (snd (cmd_toggle_split s))"
| r_left: "reachable s \<Longrightarrow> reachable (snd (cmd_left s))"
| r_right: "reachable s \<Longrightarrow> reachable (snd (cmd_right s))"
| r_up: "reachable s \<Longrightarrow> reachable (snd (cmd_up s))"
| r_down: "reachable s \<Longrightarrow> reachable (snd (cmd_down s))"
| r_shuffle_left: "reachable s \<Longrightarrow> reachable (snd (cmd_shuffle_left s))"
| r_shuffle_right: "reachable s \<Longrightarrow> reachable (snd (cmd_shuffle_right s))"
| r_shuffle_up: "reachable s \<Longrightarrow> reachable (snd (cmd_shuffle_up s))"
| r_shuffle_down: "reachable s \<Longrightarrow> reachable (snd (cmd_shuffle_down s))"

section \<open>Facts about the list primitives\<close>

lemma index_of_None: "index_of xs x = None \<longleftrightarrow> x \<notin> set xs"
  by (induction xs) auto

lemma index_of_Some:
  "index_of xs x = Some i \<Longrightarrow> i < length xs \<and> xs ! i = x \<and> (\<forall>j<i. xs ! j \<noteq> x)"
proof (induction xs arbitrary: i)
  case Nil
  then show ?case by simp
next
  case (Cons y ys)
  show ?case
  proof (cases "y = x")
    case True
    with Cons.prems show ?thesis by simp
  next
    case False
    with Cons.prems obtain k where k: "index_of ys x = Some k" "i = Suc k"
      by auto
    from Cons.IH [OF k(1)] False k(2) show ?thesis
      by (auto simp: nth_Cons split: nat.splits)
  qed
qed

lemma index_of_first:
  "i < length xs \<Longrightarrow> xs ! i = x \<Longrightarrow> (\<forall>j<i. xs ! j \<noteq> x) \<Longrightarrow> index_of xs x = Some i"
proof (induction xs arbitrary: i)
  case Nil
  then show ?case by simp
next
  case (Cons y ys)
  show ?case
  proof (cases i)
    case 0
    with Cons.prems show ?thesis by simp
  next
    case (Suc k)
    from Cons.prems Suc have "y \<noteq> x" by auto
    moreover have "index_of ys x = Some k"
      using Cons.prems Suc by (intro Cons.IH) auto
    ultimately show ?thesis using Suc by simp
  qed
qed

lemma find_column_Some:
  "find_column cs w = Some i \<Longrightarrow>
     i < length cs \<and> w \<in> set (rows (cs ! i)) \<and> (\<forall>j<i. w \<notin> set (rows (cs ! j)))"
proof (induction cs arbitrary: i)
  case Nil
  then show ?case by simp
next
  case (Cons c cs)
  show ?case
  proof (cases "w \<in> set (rows c)")
    case True
    with Cons.prems show ?thesis by simp
  next
    case False
    with Cons.prems obtain k where k: "find_column cs w = Some k" "i = Suc k"
      by auto
    from Cons.IH [OF k(1)] False k(2) show ?thesis
      by (auto simp: nth_Cons split: nat.splits)
  qed
qed

lemma find_column_None: "find_column cs w = None \<longleftrightarrow> (\<forall>c\<in>set cs. w \<notin> set (rows c))"
  by (induction cs) auto

lemma index_of_found_column:
  assumes "find_column cs w = Some i"
  shows "index_of cs (cs ! i) = Some i"
proof -
  from find_column_Some [OF assms]
  have i: "i < length cs" and m: "w \<in> set (rows (cs ! i))"
    and f: "\<forall>j<i. w \<notin> set (rows (cs ! j))" by auto
  have "\<forall>j<i. cs ! j \<noteq> cs ! i"
  proof (intro allI impI)
    fix j assume "j < i"
    with f have "w \<notin> set (rows (cs ! j))" by simp
    with m show "cs ! j \<noteq> cs ! i" by auto
  qed
  with i show ?thesis by (intro index_of_first) auto
qed

lemma remove1_first:
  "i < length xs \<Longrightarrow> xs ! i = x \<Longrightarrow> (\<forall>j<i. xs ! j \<noteq> x) \<Longrightarrow>
     remove1 x xs = take i xs @ drop (Suc i) xs"
proof (induction xs arbitrary: i)
  case Nil
  then show ?case by simp
next
  case (Cons y ys)
  show ?case
  proof (cases i)
    case 0
    with Cons.prems show ?thesis by simp
  next
    case (Suc k)
    from Cons.prems Suc have "y \<noteq> x" by auto
    moreover have "remove1 x ys = take k ys @ drop (Suc k) ys"
      using Cons.prems Suc by (intro Cons.IH) auto
    ultimately show ?thesis using Suc by simp
  qed
qed

subsection \<open>Focus and navigation\<close>

lemma focus_simps:
  "current_window (focus x s) = Some x"
  "clients (focus x s) = clients s"
  "length (columns (focus x s)) = length (columns s)"
  "map rows (columns (focus x s)) = map rows (columns s)"
  "map width (columns (focus x s)) = map width (columns s)"
  "map mode (columns (focus x s)) = map mode (columns s)"
  by (simp_all add: focus_def)

lemma getitem_nat: "k < length xs \<Longrightarrow> getitem xs (int k) = Inr (xs ! k)"
  by (simp add: getitem_def)

lemma getitem_last: "xs \<noteq> [] \<Longrightarrow> getitem xs (- 1) = Inr (last xs)"
proof -
  assume ne: "xs \<noteq> []"
  then obtain n where n: "length xs = Suc n" by (cases xs) auto
  then have "nat (int (length xs) + - 1) = n" by simp
  moreover have "last xs = xs ! n" using ne n by (simp add: last_conv_nth)
  ultimately show ?thesis using n by (simp add: getitem_def)
qed

lemma cmd_up_result:
  assumes "current_window s = Some w"
    and "find_column (columns s) w = Some i"
    and "index_of (rows (columns s ! i)) w = Some ridx"
  shows "cmd_up s =
     (if mode (columns s ! i) = ''split'' \<and> ridx = 0 then (Inr (), s)
      else if ridx = 0 then (Inr (), focus (last (rows (columns s ! i))) s)
      else (Inr (), focus (rows (columns s ! i) ! (ridx - 1)) s))"
proof -
  let ?c = "columns s ! i"
  from index_of_Some [OF assms(3)] have r: "ridx < length (rows ?c)" by simp
  then have ne: "rows ?c \<noteq> []" by auto
  have cc: "current_column s = Some i"
    using assms(1,2) by (simp add: current_column_def)
  have ic: "index_current (rows ?c) (current_window s) = Inr ridx"
    using assms(1,3) by (simp add: index_current_def list_index_def)
  have up: "cmd_up s =
     (if mode ?c = ''split'' \<and> ridx = 0 then (Inr (), s)
      else (case getitem (rows ?c) (int ridx - 1) of
              Inl e \<Rightarrow> (Inl e, s)
            | Inr client \<Rightarrow> (Inr (), focus client s)))"
    unfolding cmd_up_def cc group_focus_def by (simp add: ic Let_def)
  show ?thesis
  proof (cases "ridx = 0")
    case True
    have "getitem (rows ?c) (int ridx - 1) = Inr (last (rows ?c))"
      using True getitem_last [OF ne] by simp
    then show ?thesis unfolding up using True by simp
  next
    case False
    then obtain k where k: "ridx = Suc k" by (cases ridx) auto
    with r have "k < length (rows ?c)" by simp
    from getitem_nat [OF this] k
    have "getitem (rows ?c) (int ridx - 1) = Inr (rows ?c ! (ridx - 1))" by simp
    then show ?thesis unfolding up using False by simp
  qed
qed

subsection \<open>Removing the focused client\<close>

lemma focus_active:
  "j < length (columns s) \<Longrightarrow> x \<in> set (rows (columns s ! j)) \<Longrightarrow>
     active (columns (focus x s) ! j) = index_of (rows (columns s ! j)) x"
  by (simp add: focus_def)

lemma focus_rows_nth:
  "j < length (columns s) \<Longrightarrow> rows (columns (focus x s) ! j) = rows (columns s ! j)"
  by (simp add: focus_def)

lemma remove_focused_found:
  assumes "client \<in> set (clients s)" and "current_window s = Some client"
    and "find_column (columns s) client = Some i"
  shows "remove client s =
     remove_found i client (s\<lparr>clients := remove1 client (clients s), current_window := None\<rparr>)"
  using assms by (simp add: remove_def)

lemma remove_found_split:
  assumes col: "find_column (columns s) client = Some i"
    and row: "index_of (rows (columns s ! i)) client = Some ridx"
  shows "remove_found i client s =
     (let c' = (columns s ! i)\<lparr>rows := remove1 client (rows (columns s ! i))\<rparr>;
          s1 = s\<lparr>columns := (columns s)[i := c']\<rparr>
      in if rows c' \<noteq> [] then remove_refocus ridx c' s1 else remove_column i c' s1)"
proof -
  have "list_index (rows (columns s ! i)) client = Inr ridx"
    using row by (simp add: list_index_def)
  moreover have "list_index (columns s) (columns s ! i) = Inr i"
    using index_of_found_column [OF col] by (simp add: list_index_def)
  ultimately show ?thesis by (simp add: remove_found_def Let_def)
qed

lemma remove_refocus_result:
  assumes "ridx \<le> length r" and "r \<noteq> []"
  shows "remove_refocus ridx (c\<lparr>rows := r\<rparr>) s1 =
     (Inr (Some (r ! (ridx - 1))), focus (r ! (ridx - 1)) s1)"
proof (cases ridx)
  case 0
  with assms getitem_nat [of 0 r] show ?thesis by (simp add: remove_refocus_def)
next
  case (Suc k)
  with assms have "k < length r" by simp
  from getitem_nat [OF this] Suc show ?thesis by (simp add: remove_refocus_def)
qed

lemma remove_focused_refocus:
  assumes reg: "client \<in> set (clients s)" and foc: "current_window s = Some client"
    and col: "find_column (columns s) client = Some i"
    and row: "index_of (rows (columns s ! i)) client = Some ridx"
    and rest: "remove1 client (rows (columns s ! i)) \<noteq> []"
  shows "remove client s =
     (Inr (Some (remove1 client (rows (columns s ! i)) ! (ridx - 1))),
      focus (remove1 client (rows (columns s ! i)) ! (ridx - 1))
        (s\<lparr>clients := remove1 client (clients s), current_window := None,
           columns := (columns s)[i := (columns s ! i)\<lparr>rows :=
              remove1 client (rows (columns s ! i))\<rparr>]\<rparr>))"
proof -
  let ?r = "remove1 client (rows (columns s ! i))"
  let ?s2 = "s\<lparr>clients := remove1 client (clients s), current_window := None\<rparr>"
  from index_of_Some [OF row] have "ridx < length (rows (columns s ! i))"
    and "client \<in> set (rows (columns s ! i))" by auto
  then have le: "ridx \<le> length ?r" by (simp add: length_remove1)
  have "remove client s = remove_found i client ?s2"
    by (rule remove_focused_found [OF reg foc col])
  also have "\<dots> = remove_refocus ridx ((columns s ! i)\<lparr>rows := ?r\<rparr>)
       (?s2\<lparr>columns := (columns s)[i := (columns s ! i)\<lparr>rows := ?r\<rparr>]\<rparr>)"
    using remove_found_split [of ?s2 client i ridx] col row rest by (simp add: Let_def)
  also have "\<dots> = (Inr (Some (?r ! (ridx - 1))),
       focus (?r ! (ridx - 1)) (?s2\<lparr>columns := (columns s)[i := (columns s ! i)\<lparr>rows := ?r\<rparr>]\<rparr>))"
    by (rule remove_refocus_result [OF le rest])
  finally show ?thesis by simp
qed

subsection \<open>Removing the last row of a column\<close>

lemma list_remove_at:
  assumes "i < length cols" and "\<forall>j<i. cols ! j \<noteq> c'"
  shows "list_remove (cols[i := c']) c' = Inr (take i cols @ drop (Suc i) cols)"
proof -
  let ?xs = "cols[i := c']"
  have "remove1 c' ?xs = take i ?xs @ drop (Suc i) ?xs"
    using assms by (intro remove1_first) auto
  moreover have "c' \<in> set ?xs" using assms(1) by (simp add: set_update_memI)
  ultimately show ?thesis by (simp add: list_remove_def)
qed

lemma remove_column_result:
  assumes "i < length cols" and "\<forall>j<i. cols ! j \<noteq> c'" and "columns s1 = cols[i := c']"
  shows "remove_column i c' s1 =
     (if length cols = 1 then (Inl ZeroDivisionError, s1\<lparr>columns := []\<rparr>)
      else if length cols = 2
      then (Inr None, s1\<lparr>columns := set_widths 100 (take i cols @ drop (Suc i) cols)\<rparr>)
      else select_column i
             (s1\<lparr>columns := set_widths (100 div (int (length cols) - 1))
                                        (take i cols @ drop (Suc i) cols)\<rparr>))"
proof -
  let ?rest = "take i cols @ drop (Suc i) cols"
  have lr: "list_remove (columns s1) c' = Inr ?rest"
    using assms by (simp add: list_remove_at)
  have len: "length ?rest = length cols - 1" using assms(1) by auto
  have w: "int (length cols - 1) = int (length cols) - 1" using assms(1) by auto
  show ?thesis
  proof (cases "length cols = 1")
    case True
    with assms(1) have "i = 0" by simp
    with True have "?rest = []" by simp
    with True lr show ?thesis
      by (simp add: remove_column_def newwidth_of_def)
  next
    case False
    with assms(1) have "length cols - 1 \<noteq> 0" by auto
    with False lr len w show ?thesis
      by (auto simp add: remove_column_def newwidth_of_def Let_def set_widths_def)
  qed
qed

lemma select_column_result:
  assumes "i - 1 < length (columns s3)" and "rows (columns s3 ! (i - 1)) \<noteq> []"
  shows "select_column i s3 =
     (Inr (Some (hd (rows (columns s3 ! (i - 1))))),
      focus (hd (rows (columns s3 ! (i - 1))))
        (s3\<lparr>current_window := Some (hd (rows (columns s3 ! (i - 1))))\<rparr>))"
proof -
  have c: "(if 0 < i then i - 1 else i) = i - 1" by simp
  have g: "getitem (columns s3) (int (i - 1)) = Inr (columns s3 ! (i - 1))"
    by (rule getitem_nat [OF assms(1)])
  from assms(2) have "0 < length (rows (columns s3 ! (i - 1)))" by simp
  from getitem_nat [OF this]
  have r: "getitem (rows (columns s3 ! (i - 1))) 0 = Inr (hd (rows (columns s3 ! (i - 1))))"
    using assms(2) by (simp add: hd_conv_nth)
  show ?thesis
    unfolding select_column_def Let_def c g sum.case r group_focus_def by simp
qed

lemma set_widths_simps:
  "length (set_widths w cs) = length cs"
  "map rows (set_widths w cs) = map rows cs"
  "map mode (set_widths w cs) = map mode cs"
  "j < length cs \<Longrightarrow> rows (set_widths w cs ! j) = rows (cs ! j)"
  "c \<in> set (set_widths w cs) \<Longrightarrow> width c = w"
  by (auto simp add: set_widths_def)

lemma remove_focused_column:
  assumes reg: "client \<in> set (clients s)" and foc: "current_window s = Some client"
    and col: "find_column (columns s) client = Some i"
    and emp: "remove1 client (rows (columns s ! i)) = []"
    and two: "2 \<le> length (columns s)"
    and ne: "\<forall>c\<in>set (columns s). rows c \<noteq> []"
  shows "remove client s =
     (let rest = take i (columns s) @ drop (Suc i) (columns s);
          s3 = s\<lparr>clients := remove1 client (clients s), current_window := None,
                 columns := set_widths (100 div (int (length (columns s)) - 1)) rest\<rparr>;
          newclient = hd (rows (rest ! (i - 1)))
      in if length (columns s) = 2 then (Inr None, s3)
         else (Inr (Some newclient), focus newclient (s3\<lparr>current_window := Some newclient\<rparr>)))"
proof -
  let ?cols = "columns s"
  let ?rest = "take i ?cols @ drop (Suc i) ?cols"
  let ?c' = "(?cols ! i)\<lparr>rows := remove1 client (rows (?cols ! i))\<rparr>"
  let ?s2 = "s\<lparr>clients := remove1 client (clients s), current_window := None\<rparr>"
  let ?s1 = "?s2\<lparr>columns := ?cols[i := ?c']\<rparr>"
  let ?w = "100 div (int (length ?cols) - 1)"
  from find_column_Some [OF col] have i: "i < length ?cols"
    and mem: "client \<in> set (rows (?cols ! i))" by auto
  from mem obtain ridx where row: "index_of (rows (?cols ! i)) client = Some ridx"
    using index_of_None [of "rows (?cols ! i)" client] by (cases "index_of (rows (?cols ! i)) client") auto
  have before: "\<forall>j<i. ?cols ! j \<noteq> ?c'"
  proof (intro allI impI)
    fix j assume "j < i"
    with i have "?cols ! j \<in> set ?cols" by simp
    with ne have "rows (?cols ! j) \<noteq> []" by blast
    with emp show "?cols ! j \<noteq> ?c'" by auto
  qed
  have "remove client s = remove_found i client ?s2"
    by (rule remove_focused_found [OF reg foc col])
  also have "\<dots> = remove_column i ?c' ?s1"
    using remove_found_split [of ?s2 client i ridx] col row emp by (simp add: Let_def)
  finally have rc: "remove client s = remove_column i ?c' ?s1" .
  have res: "remove_column i ?c' ?s1 =
     (if length ?cols = 2 then (Inr None, ?s1\<lparr>columns := set_widths 100 ?rest\<rparr>)
      else select_column i (?s1\<lparr>columns := set_widths ?w ?rest\<rparr>))"
    using remove_column_result [of i ?cols ?c' ?s1, OF i before] two by simp
  show ?thesis
  proof (cases "length ?cols = 2")
    case True
    then have "?w = 100" by simp
    with True rc res show ?thesis by (simp add: Let_def)
  next
    case False
    let ?s3 = "?s1\<lparr>columns := set_widths ?w ?rest\<rparr>"
    from False two i have lt: "i - 1 < length ?rest" by auto
    have "?rest ! (i - 1) \<in> set ?rest" using lt by (rule nth_mem)
    moreover have "set ?rest \<subseteq> set ?cols"
      using set_take_subset [of i ?cols] set_drop_subset [of "Suc i" ?cols] by auto
    ultimately have "rows (?rest ! (i - 1)) \<noteq> []" using ne by blast
    with lt have a: "i - 1 < length (columns ?s3)" and b: "rows (columns ?s3 ! (i - 1)) \<noteq> []"
      by (simp_all add: set_widths_simps)
    have c: "rows (columns ?s3 ! (i - 1)) = rows (?rest ! (i - 1))"
      using lt by (simp add: set_widths_simps)
    from select_column_result [OF a b] False rc res c show ?thesis
      by (simp add: Let_def)
  qed
qed

lemma set_widths_width: "map width (set_widths w cs) = replicate (length cs) w"
  by (induction cs) (simp_all add: set_widths_def)

lemma all_widths:
  assumes "map width cs = replicate n w"
  shows "\<forall>c\<in>set cs. width c = w"
proof
  fix c assume "c \<in> set cs"
  then have "width c \<in> set (map width cs)" by simp
  with assms show "width c = w" by simp
qed

subsection \<open>Removing a column among several\<close>

text \<open>
  In a state with at least two columns in which every column has at least one row, the
  removal of the focused client that leaves its column \<open>i\<close> without rows deletes that
  column (the remaining columns keep their order, rows and modes) and gives every
  remaining column the width \<open>100 div n\<close>, where \<open>n\<close> is their number. With \<open>n = 1\<close>
  none is returned and nothing is focused; with \<open>n > 1\<close> the first row of the column at
  index \<open>i - 1\<close> of the remaining list, clamped to 0, is focused and returned: that is
  the left neighbour of the removed column, or the former second column when the first
  one was removed.
\<close>

lemma remove_focused_drops_column:
  assumes "client \<in> set (clients s)" and "current_window s = Some client"
    and "find_column (columns s) client = Some i"
    and "remove1 client (rows (columns s ! i)) = []"
    and "2 \<le> length (columns s)"
    and "\<forall>c\<in>set (columns s). rows c \<noteq> []"
  shows "let rest = take i (columns s) @ drop (Suc i) (columns s);
             n = length rest;
             newclient = hd (rows (rest ! (i - 1)));
             s' = snd (remove client s)
         in n = length (columns s) - 1
          \<and> length (columns s') = n
          \<and> map rows (columns s') = map rows rest
          \<and> map mode (columns s') = map mode rest
          \<and> (\<forall>c\<in>set (columns s'). width c = 100 div int n)
          \<and> (n = 1 \<longrightarrow> fst (remove client s) = Inr None \<and> current_window s' = None)
          \<and> (n \<noteq> 1 \<longrightarrow> fst (remove client s) = Inr (Some newclient)
                \<and> current_window s' = Some newclient
                \<and> rest ! (i - 1) = columns s ! (if i = 0 then 1 else i - 1))
          \<and> clients s' = remove1 client (clients s)"
proof -
  let ?cols = "columns s"
  let ?rest = "take i ?cols @ drop (Suc i) ?cols"
  let ?w = "100 div (int (length ?cols) - 1)"
  let ?s3 = "s\<lparr>clients := remove1 client (clients s), current_window := None,
                 columns := set_widths ?w ?rest\<rparr>"
  let ?nc = "hd (rows (?rest ! (i - 1)))"
  from find_column_Some [OF assms(3)] have i: "i < length ?cols" by simp
  then have n: "length ?rest = length ?cols - 1" by auto
  with assms(5) have w: "100 div int (length ?rest) = ?w" by (simp add: of_nat_diff)
  have sel: "length ?rest \<noteq> 1 \<longrightarrow> ?rest ! (i - 1) = ?cols ! (if i = 0 then 1 else i - 1)"
    using i assms(5) by (auto simp add: nth_append)
  have eq: "remove client s =
     (if length ?cols = 2 then (Inr None, ?s3)
      else (Inr (Some ?nc), focus ?nc (?s3\<lparr>current_window := Some ?nc\<rparr>)))"
    using remove_focused_column [OF assms] by (simp add: Let_def)
  show ?thesis
  proof (cases "length ?cols = 2")
    case True
    with eq have r: "remove client s = (Inr None, ?s3)" by simp
    have "\<forall>c\<in>set (columns ?s3). width c = ?w"
      by (rule all_widths [of _ "length ?rest"]) (simp add: set_widths_width)
    with True n w sel show ?thesis
      unfolding Let_def r by (simp add: set_widths_simps)
  next
    case False
    let ?s4 = "focus ?nc (?s3\<lparr>current_window := Some ?nc\<rparr>)"
    from False eq have r: "remove client s = (Inr (Some ?nc), ?s4)" by simp
    have "map width (columns ?s4) = replicate (length ?rest) ?w"
      by (simp add: focus_simps set_widths_width)
    then have "\<forall>c\<in>set (columns ?s4). width c = ?w" by (rule all_widths)
    moreover from False n assms(5) have "length ?rest \<noteq> 1" by auto
    ultimately show ?thesis
      unfolding Let_def r using n w sel by (simp add: focus_simps set_widths_simps)
  qed
qed

lemma remove_focused_drops_column_example:
  "remove (3::nat) \<lparr>current_window = Some 3, clients = [1, 2, 3],
      columns = [\<lparr>active = Some 0, width = 33, mode = ''split'', rows = [1]\<rparr>,
                 \<lparr>active = Some 0, width = 33, mode = ''stack'', rows = [2]\<rparr>,
                 \<lparr>active = Some 0, width = 33, mode = ''split'', rows = [3]\<rparr>]\<rparr>
     = (Inr (Some 2), \<lparr>current_window = Some 2, clients = [1, 2],
      columns = [\<lparr>active = Some 0, width = 50, mode = ''split'', rows = [1]\<rparr>,
                 \<lparr>active = Some 0, width = 50, mode = ''stack'', rows = [2]\<rparr>]\<rparr>)
   \<and> remove (1::nat) \<lparr>current_window = Some 1, clients = [1, 2],
      columns = [\<lparr>active = Some 0, width = 50, mode = ''split'', rows = [1]\<rparr>,
                 \<lparr>active = Some 0, width = 50, mode = ''split'', rows = [2]\<rparr>]\<rparr>
     = (Inr None, \<lparr>current_window = None, clients = [2],
      columns = [\<lparr>active = Some 0, width = 100, mode = ''split'', rows = [2]\<rparr>]\<rparr>)"
  using
    remove_focused_drops_column [of 3 "\<lparr>current_window = Some (3::nat), clients = [1, 2, 3],
      columns = [\<lparr>active = Some 0, width = 33, mode = ''split'', rows = [1]\<rparr>,
                 \<lparr>active = Some 0, width = 33, mode = ''stack'', rows = [2]\<rparr>,
                 \<lparr>active = Some 0, width = 33, mode = ''split'', rows = [3]\<rparr>]\<rparr>" 2]
    remove_focused_drops_column [of 1 "\<lparr>current_window = Some (1::nat), clients = [1, 2],
      columns = [\<lparr>active = Some 0, width = 50, mode = ''split'', rows = [1]\<rparr>,
                 \<lparr>active = Some 0, width = 50, mode = ''split'', rows = [2]\<rparr>]\<rparr>" 0]
  by (simp add: remove_def remove_found_def remove_column_def select_column_def list_index_def
      list_remove_def newwidth_of_def set_widths_def getitem_def group_focus_def focus_def)

subsection \<open>The column invariant\<close>

text \<open>
  Every method keeps \<open>column_invariant\<close>, so in every reachable state with two or more
  columns each column has at least one row.
\<close>

lemma nonempty_columns_rows: "nonempty_columns cs \<longleftrightarrow> [] \<notin> set (map rows cs)"
  by (induction cs) (auto simp add: nonempty_columns_def)

lemma columns_ok_rows:
  assumes "map rows cs' = map rows cs"
  shows "columns_ok cs' = columns_ok cs"
proof -
  from assms have "length (map rows cs') = length (map rows cs)" by simp
  then have "length cs' = length cs" by simp
  with assms show ?thesis by (simp add: columns_ok_def nonempty_columns_rows)
qed

lemma nonempty_columns_update:
  "nonempty_columns cs \<Longrightarrow> rows c \<noteq> [] \<Longrightarrow> nonempty_columns (cs[i := c])"
  using set_update_subset_insert [of cs i c] by (auto simp add: nonempty_columns_def)

lemma columns_ok_update: "columns_ok cs \<Longrightarrow> rows c \<noteq> [] \<Longrightarrow> columns_ok (cs[i := c])"
  by (auto simp add: columns_ok_def nonempty_columns_update)

lemma columns_ok_focus: "columns_ok (columns (focus x s)) = columns_ok (columns s)"
  by (rule columns_ok_rows) (simp add: focus_simps)

lemma column_invariant_focus: "column_invariant (focus x s) = column_invariant s"
  by (simp add: column_invariant_def columns_ok_focus)

lemma columns_ok_found:
  assumes "columns_ok cs" and "find_column cs w = Some i"
  shows "nonempty_columns cs"
proof (cases "nonempty_columns cs")
  case True
  then show ?thesis .
next
  case False
  with assms(1) have l: "length cs \<le> 1" by (simp add: columns_ok_def)
  from find_column_Some [OF assms(2)] have "i < length cs"
    and m: "w \<in> set (rows (cs ! i))" by auto
  with l have "i = 0" and "length cs = 1" by auto
  then obtain c where c: "cs = [c]" by (cases cs) auto
  with m \<open>i = 0\<close> have "rows c \<noteq> []" by auto
  with c show ?thesis by (simp add: nonempty_columns_def)
qed

lemma columns_ok_append_row: "columns_ok cs \<Longrightarrow> columns_ok (append_row i client cs)"
  unfolding append_row_def by (rule columns_ok_update) simp_all

lemma column_invariant_add:
  assumes "column_invariant s"
  shows "column_invariant (snd (add client s))"
proof -
  have app: "column_invariant
       (focus client (s\<lparr>clients := clients s @ [client],
                        columns := append_row i client (columns s)\<rparr>))" for i
    using assms columns_ok_append_row [of "columns s" i client]
    by (simp add: column_invariant_def columns_ok_focus)
  show ?thesis
  proof (cases "current_column (s\<lparr>clients := clients s @ [client]\<rparr>)")
    case None
    show ?thesis
    proof (cases "columns s")
      case Nil
      with None assms show ?thesis by (simp add: add_def column_invariant_def)
    next
      case (Cons c cs)
      with None app [of 0] show ?thesis by (simp add: add_def)
    qed
  next
    case (Some i)
    with app [of i] show ?thesis by (simp add: add_def)
  qed
qed


lemma nonempty_columns_delete:
  "nonempty_columns cs \<Longrightarrow> nonempty_columns (take i cs @ drop (Suc i) cs)"
  using set_take_subset [of i cs] set_drop_subset [of "Suc i" cs]
  by (auto simp add: nonempty_columns_def)

lemma columns_ok_set_widths: "columns_ok (set_widths w cs) = columns_ok cs"
  by (rule columns_ok_rows) (simp add: set_widths_simps)

lemma column_invariant_remove:
  assumes inv: "column_invariant s"
  shows "column_invariant (snd (remove client s))"
proof (cases "client \<in> set (clients s) \<and> current_window s = Some client")
  case False
  with inv show ?thesis by (auto simp add: remove_def column_invariant_def)
next
  case True
  then have reg: "client \<in> set (clients s)" and foc: "current_window s = Some client"
    by simp_all
  show ?thesis
  proof (cases "find_column (columns s) client")
    case None
    with reg foc inv show ?thesis by (simp add: remove_def column_invariant_def)
  next
    case (Some i)
    let ?cols = "columns s"
    let ?r = "remove1 client (rows (?cols ! i))"
    let ?c' = "(?cols ! i)\<lparr>rows := ?r\<rparr>"
    from inv Some have ne: "nonempty_columns ?cols"
      unfolding column_invariant_def by (rule columns_ok_found)
    from find_column_Some [OF Some] have i: "i < length ?cols"
      and mem: "client \<in> set (rows (?cols ! i))" by auto
    from mem obtain ridx where row: "index_of (rows (?cols ! i)) client = Some ridx"
      using index_of_None [of "rows (?cols ! i)" client]
      by (cases "index_of (rows (?cols ! i)) client") auto
    show ?thesis
    proof (cases "?r = []")
      case False
      have "nonempty_columns (?cols[i := ?c'])"
        using ne False by (intro nonempty_columns_update) simp_all
      then have "columns_ok (?cols[i := ?c'])" by (simp add: columns_ok_def)
      then show ?thesis
        unfolding remove_focused_refocus [OF reg foc Some row False]
        by (simp add: column_invariant_def columns_ok_focus)
    next
      case True
      let ?rest = "take i ?cols @ drop (Suc i) ?cols"
      have rest: "columns_ok ?rest"
        using nonempty_columns_delete [OF ne] by (simp add: columns_ok_def)
      show ?thesis
      proof (cases "2 \<le> length ?cols")
        case two: True
        from ne have "\<forall>c\<in>set ?cols. rows c \<noteq> []" by (simp add: nonempty_columns_def)
        from remove_focused_column [OF reg foc Some True two this] rest
        show ?thesis
          by (simp add: Let_def column_invariant_def columns_ok_focus columns_ok_set_widths)
      next
        case False
        with i have one: "length ?cols = 1" and "i = 0" by auto
        let ?s1 = "s\<lparr>clients := remove1 client (clients s), current_window := None,
                      columns := ?cols[i := ?c']\<rparr>"
        have "remove client s = remove_found i client
            (s\<lparr>clients := remove1 client (clients s), current_window := None\<rparr>)"
          by (rule remove_focused_found [OF reg foc Some])
        also have "\<dots> = remove_column i ?c' ?s1"
          using remove_found_split
            [of "s\<lparr>clients := remove1 client (clients s), current_window := None\<rparr>"
                client i ridx] Some row True
          by (simp add: Let_def)
        also have "\<dots> = (Inl ZeroDivisionError, ?s1\<lparr>columns := []\<rparr>)"
          using remove_column_result [of i ?cols ?c' ?s1] i one \<open>i = 0\<close> by simp
        finally show ?thesis by (simp add: column_invariant_def columns_ok_def)
      qed
    qed
  qed
qed


lemma rows_mode_update: "map rows (cs[i := (cs ! i)\<lparr>mode := m\<rparr>]) = map rows cs"
proof (induction cs arbitrary: i)
  case Nil
  show ?case by simp
next
  case (Cons c cs)
  then show ?case by (cases i) simp_all
qed

lemma columns_ok_mode_update: "columns_ok (cs[i := (cs ! i)\<lparr>mode := m\<rparr>]) = columns_ok cs"
  by (rule columns_ok_rows) (rule rows_mode_update)

lemma column_invariant_toggle_split:
  "column_invariant s \<Longrightarrow> column_invariant (snd (cmd_toggle_split s))"
  by (simp add: cmd_toggle_split_def column_invariant_def Let_def columns_ok_mode_update
      split: option.splits)

lemma column_invariant_focus_first_row:
  "column_invariant (snd (focus_first_row j s)) = column_invariant s"
  by (simp add: focus_first_row_def group_focus_def column_invariant_focus split: sum.splits)

lemma column_invariant_left: "column_invariant s \<Longrightarrow> column_invariant (snd (cmd_left s))"
  by (simp add: cmd_left_def column_invariant_focus_first_row split: option.splits sum.splits)

lemma column_invariant_right: "column_invariant s \<Longrightarrow> column_invariant (snd (cmd_right s))"
  by (simp add: cmd_right_def column_invariant_focus_first_row split: option.splits sum.splits)

lemma column_invariant_up: "column_invariant s \<Longrightarrow> column_invariant (snd (cmd_up s))"
  by (simp add: cmd_up_def group_focus_def column_invariant_focus Let_def
      split: option.splits sum.splits)

lemma column_invariant_down: "column_invariant s \<Longrightarrow> column_invariant (snd (cmd_down s))"
  by (simp add: cmd_down_def group_focus_def column_invariant_focus Let_def
      split: option.splits sum.splits)


lemma swap_length: "swap xs a b = Inr r \<Longrightarrow> length r = length xs"
  by (auto simp add: swap_def split: sum.splits)

lemma column_invariant_shuffle_swap:
  assumes "column_invariant s" and "rows (columns s ! i) \<noteq> []"
  shows "column_invariant (snd (shuffle_swap i a b k s))"
proof (cases "swap (rows (columns s ! i)) a b")
  case (Inl e)
  with assms(1) show ?thesis by (simp add: shuffle_swap_def)
next
  case (Inr r)
  from swap_length [OF Inr] assms(2) have "r \<noteq> []" by auto
  then have "columns_ok ((columns s)[i := (columns s ! i)\<lparr>rows := r\<rparr>])"
    using assms(1) by (intro columns_ok_update) (simp_all add: column_invariant_def)
  with Inr show ?thesis
    by (simp add: shuffle_swap_def Let_def group_focus_def column_invariant_def
        columns_ok_focus split: sum.splits)
qed

lemma column_invariant_shuffle_down:
  assumes "column_invariant s"
  shows "column_invariant (snd (cmd_shuffle_down s))"
proof (cases "current_window s")
  case None
  with assms show ?thesis by (simp add: cmd_shuffle_down_def)
next
  case (Some w)
  show ?thesis
  proof (cases "find_column (columns s) w")
    case None
    with Some assms show ?thesis by (simp add: cmd_shuffle_down_def)
  next
    case i: (Some i)
    from find_column_Some [OF i] have "rows (columns s ! i) \<noteq> []" by auto
    from column_invariant_shuffle_swap [OF assms this] Some i assms show ?thesis
      by (simp add: cmd_shuffle_down_def Let_def split: sum.splits)
  qed
qed

lemma column_invariant_shuffle_up:
  assumes "column_invariant s"
  shows "column_invariant (snd (cmd_shuffle_up s))"
proof (cases "current_window s")
  case None
  with assms show ?thesis by (simp add: cmd_shuffle_up_def)
next
  case (Some w)
  show ?thesis
  proof (cases "find_column (columns s) w")
    case None
    with Some assms show ?thesis by (simp add: cmd_shuffle_up_def)
  next
    case i: (Some i)
    from find_column_Some [OF i] have "rows (columns s ! i) \<noteq> []" by auto
    from column_invariant_shuffle_swap [OF assms this] Some i assms show ?thesis
      by (simp add: cmd_shuffle_up_def Let_def split: sum.splits)
  qed
qed


lemma nonempty_columns_nth:
  "nonempty_columns cs \<longleftrightarrow> (\<forall>j<length cs. rows (cs ! j) \<noteq> [])"
  by (simp add: nonempty_columns_def all_set_conv_all_nth)

lemma nonempty_columns_delete_nth:
  assumes "\<forall>j<length cs. j \<noteq> i \<longrightarrow> rows (cs ! j) \<noteq> []"
  shows "nonempty_columns (take i cs @ drop (Suc i) cs)"
proof -
  have "rows d \<noteq> []" if "d \<in> set (take i cs)" for d
  proof -
    from that obtain j where "j < length (take i cs)" and "take i cs ! j = d"
      by (auto simp add: in_set_conv_nth)
    then have "j < length cs" and "j \<noteq> i" and "d = cs ! j" by auto
    with assms show ?thesis by simp
  qed
  moreover have "rows d \<noteq> []" if "d \<in> set (drop (Suc i) cs)" for d
  proof -
    from that obtain j where "j < length (drop (Suc i) cs)" and "drop (Suc i) cs ! j = d"
      by (auto simp add: in_set_conv_nth)
    then have "Suc i + j < length cs" and "Suc i + j \<noteq> i" and "d = cs ! (Suc i + j)" by auto
    with assms show ?thesis by simp
  qed
  ultimately show ?thesis by (auto simp add: nonempty_columns_def)
qed

lemma column_invariant_shuffle_finish_rows:
  "rows c \<noteq> [] \<Longrightarrow> column_invariant (snd (shuffle_finish c cur s)) = column_invariant s"
  by (simp add: shuffle_finish_def group_focus_def column_invariant_focus)

lemma column_invariant_shuffle_finish_empty:
  assumes i: "i < length (columns s)" and c: "columns s ! i = c" and e: "rows c = []"
    and ne: "\<forall>j<length (columns s). j \<noteq> i \<longrightarrow> rows (columns s ! j) \<noteq> []"
  shows "column_invariant (snd (shuffle_finish c cur s))"
proof -
  let ?xs = "columns s"
  let ?rest = "take i ?xs @ drop (Suc i) ?xs"
  have "\<forall>j<i. ?xs ! j \<noteq> c"
  proof (intro allI impI)
    fix j assume "j < i"
    with i ne have "rows (?xs ! j) \<noteq> []" by simp
    with e show "?xs ! j \<noteq> c" by auto
  qed
  moreover have "?xs[i := c] = ?xs" unfolding c [symmetric] by (rule list_update_id)
  ultimately have lr: "list_remove ?xs c = Inr ?rest"
    using list_remove_at [OF i, of c] by simp
  have "columns_ok ?rest"
    using nonempty_columns_delete_nth [OF ne] by (simp add: columns_ok_def)
  with e lr show ?thesis
    by (simp add: shuffle_finish_def Let_def group_focus_def column_invariant_def
        columns_ok_focus columns_ok_set_widths split: sum.splits)
qed


lemma nonempty_columns_set_widths: "nonempty_columns (set_widths w cs) = nonempty_columns cs"
  by (simp add: nonempty_columns_rows set_widths_simps)

lemma nonempty_columns_add_column:
  "nonempty_columns (columns s) \<Longrightarrow> nonempty_columns (columns (add_column prepend win s))"
  using nonempty_columns_set_widths [of "100 div (int (length (columns s)) + 1)" "columns s"]
  by (simp add: add_column_def Let_def nonempty_columns_def)

lemma add_column_nth_rows:
  "i < length (columns s) \<Longrightarrow>
     rows (columns (add_column prepend win s) ! (if prepend then Suc i else i))
       = rows (columns s ! i)"
  by (simp add: add_column_def Let_def nth_append set_widths_simps)

lemma column_invariant_shuffle_new_column:
  assumes ne: "nonempty_columns (columns s)" and i: "i < length (columns s)"
    and mem: "cur \<in> set (rows (columns s ! i))"
  shows "column_invariant (snd (shuffle_new_column prepend i cur s))"
proof (cases "length (rows (columns s ! i)) = 1")
  case True
  with ne show ?thesis
    by (simp add: shuffle_new_column_def column_invariant_def columns_ok_def)
next
  case False
  let ?r = "remove1 cur (rows (columns s ! i))"
  let ?s1 = "s\<lparr>columns := (columns s)[i := (columns s ! i)\<lparr>rows := ?r\<rparr>]\<rparr>"
  let ?s2 = "add_column prepend cur ?s1"
  let ?k = "if prepend then Suc i else i"
  from mem have "0 < length (rows (columns s ! i))" by (cases "rows (columns s ! i)") auto
  with False have "2 \<le> length (rows (columns s ! i))" by arith
  moreover from mem have "length ?r = length (rows (columns s ! i)) - 1"
    by (simp add: length_remove1)
  ultimately have "0 < length ?r" by arith
  then have r: "?r \<noteq> []" by simp
  have "nonempty_columns (columns ?s1)"
    using ne r by (simp add: nonempty_columns_update)
  then have "nonempty_columns (columns ?s2)" by (rule nonempty_columns_add_column)
  then have inv2: "column_invariant ?s2" by (simp add: column_invariant_def columns_ok_def)
  have "rows (columns ?s2 ! ?k) = rows (columns ?s1 ! i)"
    using i add_column_nth_rows [of i ?s1 prepend cur] by simp
  with i have rk: "rows (columns ?s2 ! ?k) = ?r" by simp
  have "snd (shuffle_new_column prepend i cur s) = snd (shuffle_finish (columns ?s2 ! ?k) cur ?s2)"
    using False rk r unfolding shuffle_new_column_def Let_def by simp
  with rk r inv2 show ?thesis by (simp add: column_invariant_shuffle_finish_rows)
qed


lemma column_invariant_shuffle_move:
  assumes ne: "nonempty_columns (columns s)" and i: "i < length (columns s)"
    and p: "p < length (columns s)" and pi: "p \<noteq> i"
  shows "column_invariant (snd (shuffle_move i (int p) cur s))"
proof -
  let ?cols = "columns s"
  let ?c1 = "(?cols ! i)\<lparr>rows := remove1 cur (rows (?cols ! i))\<rparr>"
  let ?cols1 = "?cols[i := ?c1]"
  let ?xs = "append_row p cur ?cols1"
  let ?s2 = "s\<lparr>columns := ?xs\<rparr>"
  have g: "getitem ?cols1 (int p) = Inr (?cols1 ! p)"
    using p by (intro getitem_nat) simp
  have mv: "shuffle_move i (int p) cur s = shuffle_finish (?xs ! i) cur ?s2"
    unfolding shuffle_move_def Let_def by (simp add: g)
  have len: "length ?xs = length ?cols" by (simp add: append_row_def)
  have at_i: "?xs ! i = ?c1" using i pi by (simp add: append_row_def)
  have others: "\<forall>j<length ?xs. j \<noteq> i \<longrightarrow> rows (?xs ! j) \<noteq> []"
  proof (intro allI impI)
    fix j assume j: "j < length ?xs" and ji: "j \<noteq> i"
    show "rows (?xs ! j) \<noteq> []"
    proof (cases "j = p")
      case True
      with p show ?thesis by (simp add: append_row_def)
    next
      case False
      with j ji len have "?xs ! j = ?cols ! j" by (simp add: append_row_def)
      with ne j len show ?thesis by (simp add: nonempty_columns_nth)
    qed
  qed
  show ?thesis
  proof (cases "rows ?c1 = []")
    case True
    have "column_invariant (snd (shuffle_finish (?xs ! i) cur ?s2))"
    proof (rule column_invariant_shuffle_finish_empty [of i])
      show "i < length (columns ?s2)" using i len by simp
      show "columns ?s2 ! i = ?xs ! i" by simp
      show "rows (?xs ! i) = []" using True at_i by simp
      show "\<forall>j<length (columns ?s2). j \<noteq> i \<longrightarrow> rows (columns ?s2 ! j) \<noteq> []"
        using others by simp
    qed
    with mv show ?thesis by simp
  next
    case False
    with at_i have r: "rows (?xs ! i) \<noteq> []" by simp
    with others have "nonempty_columns ?xs"
      unfolding nonempty_columns_nth by (metis)
    then have "column_invariant ?s2" by (simp add: column_invariant_def columns_ok_def)
    with mv r show ?thesis by (simp add: column_invariant_shuffle_finish_rows)
  qed
qed


lemma column_invariant_shuffle_left:
  assumes "column_invariant s"
  shows "column_invariant (snd (cmd_shuffle_left s))"
proof (cases "current_window s")
  case None
  with assms show ?thesis by (simp add: cmd_shuffle_left_def)
next
  case (Some cur)
  show ?thesis
  proof (cases "find_column (columns s) cur")
    case None
    with Some assms show ?thesis by (simp add: cmd_shuffle_left_def)
  next
    case col: (Some i)
    from assms col have ne: "nonempty_columns (columns s)"
      unfolding column_invariant_def by (rule columns_ok_found)
    from find_column_Some [OF col] have i: "i < length (columns s)"
      and mem: "cur \<in> set (rows (columns s ! i))" by auto
    have idx: "list_index (columns s) (columns s ! i) = Inr i"
      using index_of_found_column [OF col] by (simp add: list_index_def)
    show ?thesis
    proof (cases "i = 0")
      case True
      with Some col idx column_invariant_shuffle_new_column [OF ne i mem, of True]
      show ?thesis by (simp add: cmd_shuffle_left_def)
    next
      case False
      then have "int i - 1 = int (i - 1)" by simp
      moreover from False i have "i - 1 < length (columns s)" and "i - 1 \<noteq> i" by auto
      from column_invariant_shuffle_move [OF ne i this, of cur]
      have "column_invariant (snd (shuffle_move i (int (i - 1)) cur s))" .
      ultimately show ?thesis using Some col idx False by (simp add: cmd_shuffle_left_def)
    qed
  qed
qed

lemma column_invariant_shuffle_right:
  assumes "column_invariant s"
  shows "column_invariant (snd (cmd_shuffle_right s))"
proof (cases "current_window s")
  case None
  with assms show ?thesis by (simp add: cmd_shuffle_right_def)
next
  case (Some cur)
  show ?thesis
  proof (cases "find_column (columns s) cur")
    case None
    with Some assms show ?thesis by (simp add: cmd_shuffle_right_def)
  next
    case col: (Some i)
    from assms col have ne: "nonempty_columns (columns s)"
      unfolding column_invariant_def by (rule columns_ok_found)
    from find_column_Some [OF col] have i: "i < length (columns s)"
      and mem: "cur \<in> set (rows (columns s ! i))" by auto
    have idx: "list_index (columns s) (columns s ! i) = Inr i"
      using index_of_found_column [OF col] by (simp add: list_index_def)
    show ?thesis
    proof (cases "int i = int (length (columns s)) - 1")
      case True
      with Some col idx column_invariant_shuffle_new_column [OF ne i mem, of False]
      show ?thesis by (simp add: cmd_shuffle_right_def)
    next
      case False
      from False i have "Suc i < length (columns s)" and "Suc i \<noteq> i" by auto
      from column_invariant_shuffle_move [OF ne i this, of cur]
      have "column_invariant (snd (shuffle_move i (int i + 1) cur s))"
        by (simp add: add.commute)
      then show ?thesis using Some col idx False by (simp add: cmd_shuffle_right_def)
    qed
  qed
qed

lemma column_invariant_init: "column_invariant wmii_init"
  by (simp add: wmii_init_def column_invariant_def columns_ok_def)

lemma reachable_column_invariant: "reachable s \<Longrightarrow> column_invariant s"
proof (induction rule: reachable.induct)
  case r_init
  show ?case by (rule column_invariant_init)
next
  case (r_add s client)
  then show ?case by (simp add: column_invariant_add)
next
  case (r_remove s client)
  then show ?case by (simp add: column_invariant_remove)
next
  case (r_focus s client)
  then show ?case by (simp add: column_invariant_focus)
next
  case (r_toggle_split s)
  then show ?case by (simp add: column_invariant_toggle_split)
next
  case (r_left s)
  then show ?case by (simp add: column_invariant_left)
next
  case (r_right s)
  then show ?case by (simp add: column_invariant_right)
next
  case (r_up s)
  then show ?case by (simp add: column_invariant_up)
next
  case (r_down s)
  then show ?case by (simp add: column_invariant_down)
next
  case (r_shuffle_left s)
  then show ?case by (simp add: column_invariant_shuffle_left)
next
  case (r_shuffle_right s)
  then show ?case by (simp add: column_invariant_shuffle_right)
next
  case (r_shuffle_up s)
  then show ?case by (simp add: column_invariant_shuffle_up)
next
  case (r_shuffle_down s)
  then show ?case by (simp add: column_invariant_shuffle_down)
qed

lemma reachable_columns_nonempty:
  assumes "reachable s" and "2 \<le> length (columns s)"
  shows "\<forall>c\<in>set (columns s). rows c \<noteq> []"
  using reachable_column_invariant [OF assms(1)] assms(2)
  by (simp add: column_invariant_def columns_ok_def nonempty_columns_def)

section \<open>The claims\<close>

text \<open>
  C1. Registering clients with \<open>add\<close> and then removing all of them with \<open>remove\<close>
  should end in a single placeholder column without rows and an empty registry, with no
  operation faulting. The code does not do that: already for one client, \<open>add\<close> followed
  by \<open>remove\<close> of that client deletes the only column and then divides 100 by the
  column count 0. The call raises ZeroDivisionError and the layout is left with no
  column at all.
\<close>

theorem add_then_remove_faults:
  "remove a (snd (add a wmii_init)) =
     (Inl ZeroDivisionError, \<lparr>current_window = None, clients = [], columns = []\<rparr>)"
  by (simp add: add_def remove_def remove_found_def remove_column_def wmii_init_def
      current_column_def focus_def append_row_def list_index_def list_remove_def
      newwidth_of_def)

text \<open>
  C2. The number of columns should be at least 1 after every operation. The code breaks
  this: after \<open>add 1\<close>, \<open>add 2\<close>, \<open>remove 2\<close> the removal of the last client raises
  ZeroDivisionError and leaves a layout with zero columns, in which the next \<open>add\<close>
  raises IndexError at \<^verbatim>\<open>self.columns[0]\<close>.
\<close>

theorem zero_columns_reached:
  "columns (snd (remove 1 (snd (remove 2 (snd (add 2 (snd (add (1::nat) wmii_init)))))))) = []
   \<and> fst (remove 1 (snd (remove 2 (snd (add 2 (snd (add (1::nat) wmii_init))))))) = Inl ZeroDivisionError
   \<and> add 3 (snd (remove 1 (snd (remove 2 (snd (add 2 (snd (add (1::nat) wmii_init))))))))
       = (Inl IndexError, \<lparr>current_window = None, clients = [3], columns = []\<rparr>)"
  by (simp add: add_def remove_def remove_found_def remove_column_def remove_refocus_def
      wmii_init_def getitem_def
      current_column_def focus_def append_row_def list_index_def list_remove_def
      newwidth_of_def)

text \<open>
  C3. When \<open>remove\<close> is applied to the focused client, found in column \<open>i\<close> at row
  \<open>ridx\<close>, and the column still has a row once the client has left it, then the focus
  becomes the row now at index \<open>max (ridx - 1) 0\<close> of that column and \<open>remove\<close> returns
  that client. The column keeps its place with the remaining rows, its active index is
  the position of the new focus, the other columns keep their rows, and the client has
  left the registry.
\<close>

theorem remove_focused_keeps_column:
  assumes "client \<in> set (clients s)" and "current_window s = Some client"
    and "find_column (columns s) client = Some i"
    and "index_of (rows (columns s ! i)) client = Some ridx"
    and "remove1 client (rows (columns s ! i)) \<noteq> []"
  shows "let r = remove1 client (rows (columns s ! i));
             newclient = r ! nat (max (int ridx - 1) 0);
             s' = snd (remove client s)
         in fst (remove client s) = Inr (Some newclient)
          \<and> current_window s' = Some newclient
          \<and> rows (columns s' ! i) = r
          \<and> active (columns s' ! i) = index_of r newclient
          \<and> map rows (columns s') = (map rows (columns s))[i := r]
          \<and> clients s' = remove1 client (clients s)"
proof -
  let ?r = "remove1 client (rows (columns s ! i))"
  let ?nc = "?r ! (ridx - 1)"
  let ?s1 = "s\<lparr>clients := remove1 client (clients s), current_window := None,
           columns := (columns s)[i := (columns s ! i)\<lparr>rows := ?r\<rparr>]\<rparr>"
  have eq: "remove client s = (Inr (Some ?nc), focus ?nc ?s1)"
    by (rule remove_focused_refocus [OF assms])
  have n: "nat (max (int ridx - 1) 0) = ridx - 1" by simp
  from find_column_Some [OF assms(3)] have i: "i < length (columns s)" by simp
  from index_of_Some [OF assms(4)] have "ridx < length (rows (columns s ! i))"
    and "client \<in> set (rows (columns s ! i))" by auto
  then have "ridx \<le> length ?r" by (simp add: length_remove1)
  with assms(5) have "ridx - 1 < length ?r" by (cases ridx) auto
  then have mem: "?nc \<in> set ?r" by simp
  have rw: "rows (columns (focus ?nc ?s1) ! i) = ?r"
    using i by (simp add: focus_rows_nth)
  have ac: "active (columns (focus ?nc ?s1) ! i) = index_of ?r ?nc"
    using i mem focus_active [of i ?s1 ?nc] by simp
  have mr: "map rows (columns (focus ?nc ?s1)) = (map rows (columns s))[i := ?r]"
    by (simp add: focus_simps map_update)
  show ?thesis
    unfolding Let_def n eq using rw ac mr by (simp add: focus_simps)
qed

theorem remove_focused_keeps_column_witness:
  "remove (3::nat) \<lparr>current_window = Some 3, clients = [1, 2, 3],
      columns = [\<lparr>active = Some 2, width = 100, mode = ''split'', rows = [1, 2, 3]\<rparr>]\<rparr>
     = (Inr (Some 2), \<lparr>current_window = Some 2, clients = [1, 2],
      columns = [\<lparr>active = Some 1, width = 100, mode = ''split'', rows = [1, 2]\<rparr>]\<rparr>)
   \<and> fst (remove (1::nat) \<lparr>current_window = Some 1, clients = [1, 2, 3],
      columns = [\<lparr>active = Some 0, width = 100, mode = ''split'', rows = [1, 2, 3]\<rparr>]\<rparr>)
     = Inr (Some 2)"
  using
    remove_focused_keeps_column [of 3 "\<lparr>current_window = Some (3::nat), clients = [1, 2, 3],
      columns = [\<lparr>active = Some 2, width = 100, mode = ''split'', rows = [1, 2, 3]\<rparr>]\<rparr>" 0 2]
    remove_focused_keeps_column [of 1 "\<lparr>current_window = Some (1::nat), clients = [1, 2, 3],
      columns = [\<lparr>active = Some 0, width = 100, mode = ''split'', rows = [1, 2, 3]\<rparr>]\<rparr>" 0 0]
  by (simp add: remove_def remove_found_def remove_refocus_def list_index_def getitem_def
      focus_def)

text \<open>
  C4. When \<open>remove\<close> is applied to the focused client and its column is left without
  rows, the column should be deleted, every remaining column given the width
  \<open>100 div n\<close> for the number \<open>n\<close> of remaining columns, none returned when exactly one
  column remains, and otherwise the column to the left of the removed one (clamped to
  index 0) selected, its first row focused and returned. The code breaks this where the
  client's column is the only one: with the single column of rows 1 and the focus on 1,
  \<open>remove\<close> deletes the column, no column remains, and the division of 100 by the
  column count raises ZeroDivisionError, so that neither none nor a client is returned.
  With two or more columns that all have rows the code does what the claim says
  (\<open>remove_focused_drops_column\<close>).
\<close>

theorem remove_sole_column_faults:
  "remove (1::nat) \<lparr>current_window = Some 1, clients = [1],
      columns = [\<lparr>active = Some 0, width = 100, mode = ''split'', rows = [1]\<rparr>]\<rparr>
     = (Inl ZeroDivisionError, \<lparr>current_window = None, clients = [], columns = []\<rparr>)"
  by (simp add: remove_def remove_found_def remove_column_def list_index_def list_remove_def
      newwidth_of_def)

text \<open>
  C5. \<open>remove\<close> of a registered client that is not the focused one takes the client out
  of the flat registry (its first occurrence, as \<^verbatim>\<open>list.remove\<close> does), returns none and
  changes nothing else: the column list, with every column's rows, width, mode and
  active index, and the focus are as before.
\<close>

theorem remove_unfocused:
  assumes "client \<in> set (clients s)" and "current_window s \<noteq> Some client"
  shows "remove client s = (Inr None, s\<lparr>clients := remove1 client (clients s)\<rparr>)
     \<and> columns (snd (remove client s)) = columns s
     \<and> current_window (snd (remove client s)) = current_window s"
  using assms by (simp add: remove_def)

theorem remove_unfocused_witness:
  "remove (1::nat) (snd (add 2 (snd (add 1 wmii_init))))
     = (Inr None,
        \<lparr>current_window = Some 2, clients = [2],
         columns = [\<lparr>active = Some 1, width = 100, mode = ''split'', rows = [1, 2]\<rparr>]\<rparr>)"
  using remove_unfocused [of 1 "snd (add 2 (snd (add (1::nat) wmii_init)))"]
  by (simp add: wmii_init_def add_def focus_def current_column_def append_row_def)

text \<open>
  C6. With the focus on a client that is in some column, \<open>cmd_up\<close> does the following,
  where \<open>i\<close> is the first column holding the client and \<open>ridx\<close> the client's row there:
  in mode split at the top row it is a no-op; from any row below the top it moves the
  focus to the row immediately above; in mode stack at the top row it wraps the focus to
  the bottom row of the column. The focus moves through the host's delegate, which runs
  the engine's \<open>focus\<close>; registry, rows, widths and modes are never changed.
\<close>

theorem cmd_up_spec:
  assumes "current_window s = Some w"
    and "find_column (columns s) w = Some i"
    and "index_of (rows (columns s ! i)) w = Some ridx"
  shows "(mode (columns s ! i) = ''split'' \<and> ridx = 0 \<longrightarrow> cmd_up s = (Inr (), s))
     \<and> (0 < ridx \<longrightarrow> fst (cmd_up s) = Inr ()
            \<and> current_window (snd (cmd_up s)) = Some (rows (columns s ! i) ! (ridx - 1))
            \<and> snd (cmd_up s) = focus (rows (columns s ! i) ! (ridx - 1)) s)
     \<and> (mode (columns s ! i) = ''stack'' \<and> ridx = 0 \<longrightarrow> fst (cmd_up s) = Inr ()
            \<and> current_window (snd (cmd_up s)) = Some (last (rows (columns s ! i)))
            \<and> snd (cmd_up s) = focus (last (rows (columns s ! i))) s)
     \<and> clients (snd (cmd_up s)) = clients s
     \<and> map rows (columns (snd (cmd_up s))) = map rows (columns s)
     \<and> map width (columns (snd (cmd_up s))) = map width (columns s)
     \<and> map mode (columns (snd (cmd_up s))) = map mode (columns s)"
  unfolding cmd_up_result [OF assms] by (simp add: focus_simps)

theorem cmd_up_spec_witness:
  "cmd_up \<lparr>current_window = Some (1::nat), clients = [1, 2, 3],
      columns = [\<lparr>active = Some 0, width = 100, mode = ''stack'', rows = [1, 2, 3]\<rparr>]\<rparr>
     = (Inr (), \<lparr>current_window = Some 3, clients = [1, 2, 3],
      columns = [\<lparr>active = Some 2, width = 100, mode = ''stack'', rows = [1, 2, 3]\<rparr>]\<rparr>)
   \<and> cmd_up \<lparr>current_window = Some (1::nat), clients = [1, 2, 3],
      columns = [\<lparr>active = Some 0, width = 100, mode = ''split'', rows = [1, 2, 3]\<rparr>]\<rparr>
     = (Inr (), \<lparr>current_window = Some 1, clients = [1, 2, 3],
      columns = [\<lparr>active = Some 0, width = 100, mode = ''split'', rows = [1, 2, 3]\<rparr>]\<rparr>)
   \<and> current_window (snd (cmd_up \<lparr>current_window = Some (3::nat), clients = [1, 2, 3],
      columns = [\<lparr>active = Some 2, width = 100, mode = ''split'', rows = [1, 2, 3]\<rparr>]\<rparr>))
     = Some 2"
  using
    cmd_up_spec [of "\<lparr>current_window = Some (1::nat), clients = [1, 2, 3],
      columns = [\<lparr>active = Some 0, width = 100, mode = ''stack'', rows = [1, 2, 3]\<rparr>]\<rparr>" 1 0 0]
    cmd_up_spec [of "\<lparr>current_window = Some (1::nat), clients = [1, 2, 3],
      columns = [\<lparr>active = Some 0, width = 100, mode = ''split'', rows = [1, 2, 3]\<rparr>]\<rparr>" 1 0 0]
    cmd_up_spec [of "\<lparr>current_window = Some (3::nat), clients = [1, 2, 3],
      columns = [\<lparr>active = Some 2, width = 100, mode = ''split'', rows = [1, 2, 3]\<rparr>]\<rparr>" 3 0 2]
  by (simp add: focus_def prod_eq_iff)

text \<open>
  C7. With the focus on the bottom row of a column in stacked mode, \<open>cmd_down\<close> should
  wrap to the top row without an out-of-range access. The code reads the row one past
  the end instead: with the rows 1, 2, 3 in one stacked column and the focus on 3,
  \<open>cmd_down\<close> raises IndexError and the focus stays on 3.
\<close>

theorem cmd_down_stack_bottom_faults:
  "cmd_down (snd (cmd_toggle_split (snd (add 3 (snd (add 2 (snd (add (1::nat) wmii_init))))))))
    = (Inl IndexError,
       \<lparr>current_window = Some 3, clients = [1, 2, 3],
        columns = [\<lparr>active = Some 2, width = 100, mode = ''stack'', rows = [1, 2, 3]\<rparr>]\<rparr>)"
  by (simp add: add_def cmd_down_def cmd_toggle_split_def wmii_init_def getitem_def
      index_current_def
      current_column_def focus_def append_row_def list_index_def)

text \<open>
  C8. With the focus on the last row of its column, \<open>cmd_shuffle_down\<close> should be a
  no-op without an out-of-range access. The code's guard \<^verbatim>\<open>ridx < len(r)\<close> admits the
  last row, and \<open>swap\<close> reads the row one past the end: in a layout holding a single
  client the call raises IndexError (the state is as before the call).
\<close>

theorem cmd_shuffle_down_last_row_faults:
  "cmd_shuffle_down (snd (add a wmii_init)) = (Inl IndexError, snd (add a wmii_init))"
  by (simp add: add_def cmd_shuffle_down_def shuffle_swap_def swap_def wmii_init_def getitem_def
      current_column_def focus_def append_row_def list_index_def Let_def)

text \<open>
  C9. With \<open>n\<close> columns, \<open>add_column prepend client\<close> computes the width
  \<open>100 div (n + 1)\<close>, gives it to each of the \<open>n\<close> existing columns and inserts one new
  column of that width, in mode split, whose rows are exactly the client: at the front
  when \<open>prepend\<close> holds, at the back otherwise. The existing columns keep their order,
  rows, mode and active index; registry and focus are unchanged.
\<close>

theorem add_column_spec:
  "let n = length (columns s);
       newwidth = 100 div (int n + 1);
       s' = add_column prepend client s
   in length (columns s') = n + 1
     \<and> columns s' ! (if prepend then 0 else n)
         = \<lparr>active = None, width = newwidth, mode = ''split'', rows = [client]\<rparr>
     \<and> (\<forall>j<n. columns s' ! (if prepend then j + 1 else j)
                 = (columns s ! j)\<lparr>width := newwidth\<rparr>)
     \<and> clients s' = clients s \<and> current_window s' = current_window s"
  by (simp add: add_column_def set_widths_def Let_def nth_append)

theorem add_column_spec_witness:
  "columns (add_column True (3::nat) (snd (cmd_shuffle_right (snd (add 2 (snd (add 1 wmii_init)))))))
     = [\<lparr>active = None, width = 33, mode = ''split'', rows = [3]\<rparr>,
        \<lparr>active = Some 1, width = 33, mode = ''split'', rows = [1]\<rparr>,
        \<lparr>active = Some 0, width = 33, mode = ''split'', rows = [2]\<rparr>]"
  using add_column_spec [of "snd (cmd_shuffle_right (snd (add 2 (snd (add 1 wmii_init)))))" True "3::nat"]
  by (simp add: add_column_def set_widths_def Let_def wmii_init_def add_def focus_def
      current_column_def append_row_def cmd_shuffle_right_def shuffle_new_column_def
      shuffle_finish_def group_focus_def list_index_def)

text \<open>
  C10. When no client is focused, or the focused client is in no column's rows, \<open>cmd_up\<close>
  and \<open>cmd_down\<close> return without a fault and leave the whole layout state as it was.
\<close>

theorem cmd_up_down_without_column:
  assumes "current_window s = None \<or>
           (\<exists>w. current_window s = Some w \<and> (\<forall>c\<in>set (columns s). w \<notin> set (rows c)))"
  shows "cmd_up s = (Inr (), s) \<and> cmd_down s = (Inr (), s)"
proof -
  from assms have "current_column s = None"
    by (auto simp: current_column_def find_column_None)
  then show ?thesis by (simp add: cmd_up_def cmd_down_def)
qed

theorem cmd_up_down_without_column_witness:
  "cmd_up (wmii_init :: nat wmii) = (Inr (), wmii_init) \<and>
   cmd_down (wmii_init :: nat wmii) = (Inr (), wmii_init) \<and>
   cmd_up (focus 7 (snd (add (1::nat) wmii_init))) = (Inr (), focus 7 (snd (add 1 wmii_init))) \<and>
   cmd_down (focus 7 (snd (add (1::nat) wmii_init))) = (Inr (), focus 7 (snd (add 1 wmii_init))) \<and>
   current_window (focus 7 (snd (add (1::nat) wmii_init))) = Some 7 \<and>
   map rows (columns (focus 7 (snd (add (1::nat) wmii_init)))) = [[1]]"
  using cmd_up_down_without_column [of "wmii_init :: nat wmii"]
    cmd_up_down_without_column [of "focus 7 (snd (add (1::nat) wmii_init))"]
  by (simp add: wmii_init_def add_def focus_def current_column_def append_row_def)

end
